theory Spec2Isabelle
  imports Main "HOL-Library.Word" "HOL-Library.Multiset"
begin

section \<open>Data model of worker/sort.go\<close>

text \<open>
  Identifiers are Go \<open>uint64\<close>. \<open>Count\<close> and \<open>Offset\<close> of a sort message are Go
  \<open>int32\<close> fields that the code converts with \<open>int(...)\<close> before any arithmetic; the only
  arithmetic is against slice lengths, so they are read as mathematical integers.
\<close>

type_synonym uid = "64 word"
type_synonym byte = "8 word"

text \<open>
  Modelled from the spec: \<open>types.TypeID\<close> (package \<open>types\<close> is not among the sources).
  The spec's closed scalar set, and the object (identifier) type \<open>UidID\<close> that
  \<open>schema/parse_test.go\<close> names.
\<close>

datatype TypeID =
  IntID | FloatID | BoolID | StringID | DateTimeID | GeoID | PasswordID | DefaultID | UidID

text \<open>
  Modelled from the spec: \<open>TypeID.IsScalar\<close> (package \<open>types\<close> is not among the
  sources): every type but the object type is scalar.
\<close>

definition IsScalar :: "TypeID \<Rightarrow> bool" where
  "IsScalar t = (t \<noteq> UidID)"

text \<open>
  The errors sort.go creates itself, one constructor per \<open>x.Errorf\<close>/\<open>fmt.Errorf\<close> site
  (the two sentinels included), \<open>ctx.Err()\<close>, and the errors handed over by collaborators
  (\<open>posting\<close>, \<open>types\<close>, the task layer), which carry their message.
\<close>

datatype error =
    errContinue
  | errDone
  | ErrNegativeCount
  | ErrListType
  | ErrObjectType
  | ErrNotDefined
  | ErrNotIndexed
  | ErrNoExactIndex
  | ErrNotSortable
  | Cancelled
  | ErrExternal string

text \<open>
  Ways a run ends without returning: a Go run-time panic (index or slice bounds, nil
  dereference) or a failed \<open>x.AssertTrue\<close>.
\<close>

datatype crash = IndexOutOfRange | SliceBounds | NilDeref | AssertFailed

text \<open>
  Modelled from the spec: \<open>x.AssertTrue\<close> and \<open>x.AssertTruef\<close> (package \<open>x\<close> is not
  among the sources). The spec speaks of assertions that must hold; the call sites use no
  return value and go on unconditionally, so a false condition ends the run.
\<close>

definition AssertTrue :: "bool \<Rightarrow> crash + unit" where
  "AssertTrue b = (if b then Inr () else Inl AssertFailed)"

record SortMessage =
  Attr :: "string list"
  Desc :: "bool list"
  UidMatrix :: "uid list list"
  Count :: int
  Offset :: int
  Langs :: "string list"

record SortResult =
  ResUidMatrix :: "uid list list"

definition emptySortResult :: SortResult where
  "emptySortResult = \<lparr>ResUidMatrix = []\<rparr>"

record 'v sortresult =
  reply :: "SortResult option"
  vals :: "'v list list"
  err :: "error option"

text \<open>The result \<open>&sortresult{&emptySortResult, nil, e}\<close> of a scanner that fails.\<close>

definition failed :: "error \<Rightarrow> 'v sortresult" where
  "failed e = \<lparr>reply = Some emptySortResult, vals = [], err = Some e\<rparr>"

record Tokenizer =
  Name :: string
  Identifier :: byte
  IsSortable :: bool

record TaskValue =
  Val :: "byte list"
  ValType :: TypeID

record Query =
  QAttr :: string
  QUidList :: "uid list"
  QReverse :: bool

text \<open>
  The collaborators of sort.go, none of them among the sources, taken as parameters; the
  type \<open>'v\<close> is \<open>types.Val\<close>.
  \<^item> \<open>schema_*\<close>: \<open>schema.State()\<close>; \<open>TypeOf\<close> fails with a message or gives the type.
  \<^item> \<open>index_Scan a id rev\<close>: the terms of the keys the store iterator visits, in order,
    from the seek position while the key keeps the prefix \<open>x.IndexKey(a, id)\<close>
    (forward from the prefix, or in reverse from the prefix of \<open>id + 1\<close>); the two
    assertions on the parsed key are taken to hold of these keys.
  \<^item> \<open>posting_Uids a tok ul\<close>: \<open>posting.Get(x.IndexKey(a, tok)).Uids\<close> with
    \<open>Intersect = ul\<close>.
  \<^item> \<open>posting_ValueFor a u langs\<close>: \<open>posting.Get(x.DataKey(a, u)).ValueFor(langs)\<close>.
  \<^item> \<open>types_Sort vs us desc\<close>: the error of \<open>types.Sort\<close> and the identifier list it
    leaves behind (it sorts in place).
  \<^item> \<open>types_Zero\<close> is the zero \<open>types.Val\<close>, \<open>types_Nil t\<close> the value with a nil payload
    and tag \<open>t\<close>, \<open>types_FromBytes bs t\<close> is \<open>types.ValueForType(t)\<close> with the bytes as
    payload.
\<close>

record 'v env =
  schema_TypeOf :: "string \<Rightarrow> string + TypeID"
  schema_IsList :: "string \<Rightarrow> bool"
  schema_IsIndexed :: "string \<Rightarrow> bool"
  schema_Tokenizer :: "string \<Rightarrow> Tokenizer list"
  index_Scan :: "string \<Rightarrow> byte \<Rightarrow> bool \<Rightarrow> string list"
  posting_Uids :: "string \<Rightarrow> string \<Rightarrow> uid list \<Rightarrow> uid list"
  posting_ValueFor :: "string \<Rightarrow> uid \<Rightarrow> string list \<Rightarrow> string + 'v"
  types_Convert :: "'v \<Rightarrow> TypeID \<Rightarrow> string + 'v"
  types_Sort :: "'v list list \<Rightarrow> uid list \<Rightarrow> bool list \<Rightarrow> string option \<times> uid list"
  types_Zero :: "'v"
  types_Nil :: "TypeID \<Rightarrow> 'v"
  types_FromBytes :: "byte list \<Rightarrow> TypeID \<Rightarrow> 'v"
  x_Nilbyte :: "byte list"
  ProcessTaskOverNetwork :: "Query \<Rightarrow> TaskValue list list option \<times> string option"
  group_BelongsTo :: "string \<Rightarrow> nat"
  groups_ServesGroup :: "nat \<Rightarrow> bool"

subsection \<open>Cancellation\<close>

text \<open>
  A context as one task sees it, threaded through the task's polls of \<open>ctx.Done()\<close>:
  \<open>None\<close> is never cancelled; \<open>Some (Suc k)\<close> lets the next \<open>k\<close> polls find it open and
  the poll after them find it cancelled; \<open>Some 0\<close> says that a poll has found it
  cancelled (and every later poll finds it so). A poll is the only thing that changes the
  state, so a run that starts in another state and ends in \<open>Some 0\<close> has observed the
  cancellation.
\<close>

type_synonym ctx = "nat option"

fun ctxDone :: "ctx \<Rightarrow> bool \<times> ctx" where
  "ctxDone None = (False, None)"
| "ctxDone (Some 0) = (True, Some 0)"
| "ctxDone (Some (Suc 0)) = (True, Some 0)"
| "ctxDone (Some (Suc (Suc k))) = (False, Some (Suc k))"

section \<open>Row sorter\<close>

definition fetchValue :: "'v env \<Rightarrow> uid \<Rightarrow> string \<Rightarrow> string list \<Rightarrow> TypeID \<Rightarrow> error + 'v" where
  "fetchValue env u attr langs scalar =
     (case posting_ValueFor env attr u langs of
        Inl e \<Rightarrow> Inl (ErrExternal e)
      | Inr src \<Rightarrow>
          (case types_Convert env src scalar of
             Inl e \<Rightarrow> Inl (ErrExternal e)
           | Inr dst \<Rightarrow> Inr dst))"

text \<open>
  The loop of \<open>sortByValue\<close> over \<open>ul.Uids\<close>; the flag of the result says that a poll found
  the context cancelled.
\<close>

fun sortByValue_loop ::
  "'v env \<Rightarrow> SortMessage \<Rightarrow> TypeID \<Rightarrow> ctx \<Rightarrow> uid list \<Rightarrow> uid list \<Rightarrow> 'v list list \<Rightarrow> 'v list
     \<Rightarrow> crash + (ctx \<times> bool \<times> uid list \<times> 'v list list \<times> 'v list)"
where
  "sortByValue_loop env ts typ c [] uids values multiSortVals =
     Inr (c, False, uids, values, multiSortVals)"
| "sortByValue_loop env ts typ c (u # rest) uids values multiSortVals =
     (case ctxDone c of
        (True, c') \<Rightarrow> Inr (c', True, uids, values, multiSortVals)
      | (False, c') \<Rightarrow>
          (case Attr ts of
             [] \<Rightarrow> Inl IndexOutOfRange
           | a # _ \<Rightarrow>
               (case fetchValue env u a (Langs ts) typ of
                  Inl e \<Rightarrow> sortByValue_loop env ts typ c' rest uids values multiSortVals
                | Inr v \<Rightarrow>
                    sortByValue_loop env ts typ c' rest (uids @ [u]) (values @ [[v]])
                      (if length (Attr ts) > 1 then multiSortVals @ [v] else multiSortVals))))"

text \<open>
  \<open>sortByValue\<close> returns the new \<open>ul.Uids\<close> (the old one when cancelled: the assignment is
  not reached), \<open>multiSortVals\<close> and the error.
\<close>

definition sortByValue ::
  "'v env \<Rightarrow> ctx \<Rightarrow> SortMessage \<Rightarrow> uid list \<Rightarrow> TypeID
     \<Rightarrow> crash + (ctx \<times> uid list \<times> 'v list \<times> error option)"
where
  "sortByValue env c ts ul typ =
     (case sortByValue_loop env ts typ c ul [] [] [] of
        Inl cr \<Rightarrow> Inl cr
      | Inr (c', cancelled, uids, values, multiSortVals) \<Rightarrow>
          if cancelled then Inr (c', ul, multiSortVals, Some Cancelled)
          else
            (case Desc ts of
               [] \<Rightarrow> Inl IndexOutOfRange
             | d # _ \<Rightarrow>
                 (case types_Sort env values uids [d] of
                    (serr, suids) \<Rightarrow>
                      (case (if length (Attr ts) > 1
                             then AssertTrue (length suids = length multiSortVals)
                             else Inr ()) of
                         Inl cr \<Rightarrow> Inl cr
                       | Inr _ \<Rightarrow> Inr (c', suids, multiSortVals, map_option ErrExternal serr)))))"

section \<open>Pagination helper and non-indexed scanner\<close>

text \<open>
  Modelled from the spec: \<open>x.PageRange\<close> (package \<open>x\<close> is not among the sources):
  \<open>start = min(offset, len)\<close>, \<open>end = min(offset + count, len)\<close>, and a count of zero
  means all, \<open>end = len\<close>.
\<close>

definition PageRange :: "int \<Rightarrow> int \<Rightarrow> int \<Rightarrow> int \<times> int" where
  "PageRange cnt off n =
     (min off n, if cnt = 0 then n else min (off + cnt) n)"

text \<open>
  A Go slice expression \<open>s[lo:hi]\<close> on a slice whose capacity is its length: it panics
  unless \<open>0 \<le> lo \<le> hi \<le> len(s)\<close>.
\<close>

definition slice :: "'a list \<Rightarrow> int \<Rightarrow> int \<Rightarrow> crash + 'a list" where
  "slice xs lo hi =
     (if 0 \<le> lo \<and> lo \<le> hi \<and> hi \<le> int (length xs)
      then Inr (take (nat hi - nat lo) (drop (nat lo) xs))
      else Inl SliceBounds)"

definition paginate :: "SortMessage \<Rightarrow> uid list \<Rightarrow> crash + uid list" where
  "paginate ts dest =
     (case PageRange (Count ts) (Offset ts) (int (length dest)) of
        (start, end') \<Rightarrow> slice dest start end')"

text \<open>
  The loop over the rows and the scanner around it give, with the result, the state in
  which they leave the context; \<open>sortWithoutIndex\<close> is the result alone.
\<close>

fun sortWithoutIndex_loop ::
  "'v env \<Rightarrow> SortMessage \<Rightarrow> TypeID \<Rightarrow> ctx \<Rightarrow> uid list list \<Rightarrow> uid list list
     \<Rightarrow> crash + (ctx \<times> 'v sortresult)"
where
  "sortWithoutIndex_loop env ts sType c [] racc =
     Inr (c, \<lparr>reply = Some \<lparr>ResUidMatrix = racc\<rparr>, vals = [], err = None\<rparr>)"
| "sortWithoutIndex_loop env ts sType c (row # rows) racc =
     (case ctxDone c of
        (True, c') \<Rightarrow> Inr (c', failed Cancelled)
      | (False, c') \<Rightarrow>
          (case sortByValue env c' ts row sType of
             Inl cr \<Rightarrow> Inl cr
           | Inr (c'', tempList, _, Some e) \<Rightarrow> Inr (c'', failed e)
           | Inr (c'', tempList, _, None) \<Rightarrow>
               (case paginate ts tempList of
                  Inl cr \<Rightarrow> Inl cr
                | Inr page \<Rightarrow> sortWithoutIndex_loop env ts sType c'' rows (racc @ [page]))))"

definition sortWithoutIndex_run ::
  "'v env \<Rightarrow> ctx \<Rightarrow> SortMessage \<Rightarrow> crash + (ctx \<times> 'v sortresult)"
where
  "sortWithoutIndex_run env c ts =
     (case Attr ts of
        [] \<Rightarrow> Inl IndexOutOfRange
      | a # _ \<Rightarrow>
          (case schema_TypeOf env a of
             Inl _ \<Rightarrow> Inr (c, failed ErrObjectType)
           | Inr sType \<Rightarrow>
               if \<not> IsScalar sType then Inr (c, failed ErrObjectType)
               else sortWithoutIndex_loop env ts sType c (UidMatrix ts) []))"

definition sortWithoutIndex :: "'v env \<Rightarrow> ctx \<Rightarrow> SortMessage \<Rightarrow> crash + 'v sortresult" where
  "sortWithoutIndex env c ts =
     (case sortWithoutIndex_run env c ts of
        Inl cr \<Rightarrow> Inl cr
      | Inr (_, r) \<Rightarrow> Inr r)"

section \<open>Bucket intersector\<close>

record 'v intersectedList =
  offset :: int
  ulist :: "uid list"
  ivalues :: "'v list"

text \<open>
  One turn of the loop of \<open>intersectBucket\<close> over the rows: the row \<open>ul\<close> and its entry
  \<open>il = out[i]\<close>. The result is the entry as the turn leaves it and the error the function
  returns from inside the turn, if any.
\<close>

definition intersectRow ::
  "'v env \<Rightarrow> SortMessage \<Rightarrow> string \<Rightarrow> string \<Rightarrow> TypeID \<Rightarrow> ctx \<Rightarrow> uid list \<Rightarrow> 'v intersectedList
     \<Rightarrow> crash + (ctx \<times> 'v intersectedList \<times> error option)"
where
  "intersectRow env ts attr token scalar c ul il =
     (let cnt = Count ts in
      if cnt > 0 \<and> int (length (ulist il)) \<ge> cnt then Inr (c, il, None)
      else
        let result = posting_Uids env attr token ul;
            n = int (length result)
        in
          if offset il \<ge> n then Inr (c, il\<lparr>offset := offset il - n\<rparr>, None)
          else
            (case sortByValue env c ts result scalar of
               Inl cr \<Rightarrow> Inl cr
             | Inr (c', result1, vals1, Some e) \<Rightarrow> Inr (c', il, Some e)
             | Inr (c', result1, vals1, None) \<Rightarrow>
                 (let n1 = int (length result1) in
                  case (if offset il > 0
                        then (case slice result1 (offset il) n1 of
                                Inl cr \<Rightarrow> Inl cr
                              | Inr result2 \<Rightarrow>
                                  if length (Attr ts) > 1
                                  then (case slice vals1 (offset il) n1 of
                                          Inl cr \<Rightarrow> Inl cr
                                        | Inr vals2 \<Rightarrow> Inr (result2, vals2, 0))
                                  else Inr (result2, vals1, 0))
                        else Inr (result1, vals1, offset il)) of
                    Inl cr \<Rightarrow> Inl cr
                  | Inr (result2, vals2, off2) \<Rightarrow>
                      (let n2 = int (length result2);
                           n3 = (if cnt > 0 \<and> length (Attr ts) = 1
                                 then (let slack = cnt - int (length (ulist il))
                                       in if slack < n2 then slack else n2)
                                 else n2)
                       in
                         case slice result2 0 n3 of
                           Inl cr \<Rightarrow> Inl cr
                         | Inr app \<Rightarrow>
                             if length (Attr ts) > 1
                             then (case slice vals2 0 n3 of
                                     Inl cr \<Rightarrow> Inl cr
                                   | Inr vapp \<Rightarrow>
                                       Inr (c', \<lparr>offset = off2, ulist = ulist il @ app,
                                                 ivalues = ivalues il @ vapp\<rparr>, None))
                             else Inr (c', \<lparr>offset = off2, ulist = ulist il @ app,
                                            ivalues = ivalues il\<rparr>, None)))))"

text \<open>
  The loop over the rows. \<open>out[i]\<close> panics when \<open>out\<close> is shorter than the matrix; on an
  error the entries already visited keep their updates, the others are untouched.
\<close>

fun intersectRows ::
  "'v env \<Rightarrow> SortMessage \<Rightarrow> string \<Rightarrow> string \<Rightarrow> TypeID \<Rightarrow> ctx \<Rightarrow> uid list list
     \<Rightarrow> 'v intersectedList list \<Rightarrow> crash + (ctx \<times> 'v intersectedList list \<times> error option)"
where
  "intersectRows env ts attr token scalar c [] out = Inr (c, out, None)"
| "intersectRows env ts attr token scalar c (ul # uls) [] = Inl IndexOutOfRange"
| "intersectRows env ts attr token scalar c (ul # uls) (il # ils) =
     (case intersectRow env ts attr token scalar c ul il of
        Inl cr \<Rightarrow> Inl cr
      | Inr (c', il', Some e) \<Rightarrow> Inr (c', il' # ils, Some e)
      | Inr (c', il', None) \<Rightarrow>
          (case intersectRows env ts attr token scalar c' uls ils of
             Inl cr \<Rightarrow> Inl cr
           | Inr (c'', ils', e) \<Rightarrow> Inr (c'', il' # ils', e)))"

text \<open>
  The closing loop of \<open>intersectBucket\<close>, over the first \<open>len(ts.UidMatrix)\<close> entries of
  \<open>out\<close>, given here as that many rows.
\<close>

fun checkSizes :: "SortMessage \<Rightarrow> uid list list \<Rightarrow> 'v intersectedList list \<Rightarrow> crash + error" where
  "checkSizes ts [] out = Inr errDone"
| "checkSizes ts (ul # uls) [] = Inl IndexOutOfRange"
| "checkSizes ts (ul # uls) (il # ils) =
     (if int (length (ulist il)) < Count ts then Inr errContinue
      else
        (case (if length (Attr ts) = 1
               then AssertTrue (int (length (ulist il)) = Count ts)
               else Inr ()) of
           Inl cr \<Rightarrow> Inl cr
         | Inr _ \<Rightarrow> checkSizes ts uls ils))"

definition intersectBucket ::
  "'v env \<Rightarrow> ctx \<Rightarrow> SortMessage \<Rightarrow> string \<Rightarrow> 'v intersectedList list
     \<Rightarrow> crash + (ctx \<times> 'v intersectedList list \<times> error)"
where
  "intersectBucket env c ts token out =
     (case Attr ts of
        [] \<Rightarrow> Inl IndexOutOfRange
      | attr # _ \<Rightarrow>
          (case schema_TypeOf env attr of
             Inl _ \<Rightarrow> Inr (c, out, ErrObjectType)
           | Inr sType \<Rightarrow>
               if \<not> IsScalar sType then Inr (c, out, ErrObjectType)
               else
                 (case intersectRows env ts attr token sType c (UidMatrix ts) out of
                    Inl cr \<Rightarrow> Inl cr
                  | Inr (c', out', Some e) \<Rightarrow> Inr (c', out', e)
                  | Inr (c', out', None) \<Rightarrow>
                      (case checkSizes ts (UidMatrix ts) out' of
                         Inl cr \<Rightarrow> Inl cr
                       | Inr sig \<Rightarrow> Inr (c', out', sig)))))"

section \<open>Indexed scanner\<close>

text \<open>
  The loop over the index buckets: a poll of the context, then the intersector. It ends
  with the accumulators, or with the error \<open>sortWithIndex\<close> returns from inside the loop.
\<close>

fun sortWithIndex_buckets ::
  "'v env \<Rightarrow> SortMessage \<Rightarrow> ctx \<Rightarrow> string list \<Rightarrow> 'v intersectedList list
     \<Rightarrow> crash + (ctx \<times> (error + 'v intersectedList list))"
where
  "sortWithIndex_buckets env ts c [] out = Inr (c, Inr out)"
| "sortWithIndex_buckets env ts c (token # tokens) out =
     (case ctxDone c of
        (True, c') \<Rightarrow> Inr (c', Inl Cancelled)
      | (False, c') \<Rightarrow>
          (case intersectBucket env c' ts token out of
             Inl cr \<Rightarrow> Inl cr
           | Inr (c'', out', e) \<Rightarrow>
               if e = errDone then Inr (c'', Inr out')
               else if e = errContinue then sortWithIndex_buckets env ts c'' tokens out'
               else Inr (c'', Inl e)))"

text \<open>
  The scanner gives, with its result, the state in which it leaves the context;
  \<open>sortWithIndex\<close> is the result alone.
\<close>

definition sortWithIndex_run ::
  "'v env \<Rightarrow> ctx \<Rightarrow> SortMessage \<Rightarrow> crash + (ctx \<times> 'v sortresult)"
where
  "sortWithIndex_run env c ts =
     (let out = replicate (length (UidMatrix ts))
                  \<lparr>offset = Offset ts, ulist = [], ivalues = []\<rparr>
      in
        case Desc ts of
          [] \<Rightarrow> Inl IndexOutOfRange
        | d # _ \<Rightarrow>
            (case Attr ts of
               [] \<Rightarrow> Inl IndexOutOfRange
             | attr # _ \<Rightarrow>
                 (case schema_TypeOf env attr of
                    Inl _ \<Rightarrow> Inr (c, failed ErrNotDefined)
                  | Inr typ \<Rightarrow>
                      if \<not> schema_IsIndexed env attr then Inr (c, failed ErrNotIndexed)
                      else
                        (case find IsSortable (schema_Tokenizer env attr) of
                           None \<Rightarrow>
                             if typ = StringID then Inr (c, failed ErrNoExactIndex)
                             else Inr (c, failed ErrNotSortable)
                         | Some tokenizer \<Rightarrow>
                             (case sortWithIndex_buckets env ts c
                                     (index_Scan env attr (Identifier tokenizer) d) out of
                                Inl cr \<Rightarrow> Inl cr
                              | Inr (c', Inl e) \<Rightarrow> Inr (c', failed e)
                              | Inr (c', Inr out') \<Rightarrow>
                                  (case ctxDone c' of
                                     (True, c'') \<Rightarrow> Inr (c'', failed Cancelled)
                                   | (False, c'') \<Rightarrow>
                                       Inr (c'',
                                            \<lparr>reply = Some \<lparr>ResUidMatrix = map ulist out'\<rparr>,
                                             vals = (if length (Attr ts) > 1
                                                     then map ivalues out' else []),
                                             err = None\<rparr>)))))))"

definition sortWithIndex :: "'v env \<Rightarrow> ctx \<Rightarrow> SortMessage \<Rightarrow> crash + 'v sortresult" where
  "sortWithIndex env c ts =
     (case sortWithIndex_run env c ts of
        Inl cr \<Rightarrow> Inl cr
      | Inr (_, r) \<Rightarrow> Inr r)"

section \<open>Strategy racer and multi-attribute extender\<close>

text \<open>
  What one run of \<open>processSort\<close> and of the RPC handler leaves to the scheduler and to the
  caller's context, made a parameter:
  \<^item> \<open>timerFirst\<close>: the 3 ms timer of the non-indexed task fires before it sees the
    context cancelled;
  \<^item> \<open>ctxNoIndex\<close>, \<open>ctxIndex\<close>: the context as each of the two tasks polls it (the
    racer's own \<open>cancel()\<close> reaches only the task whose result is dropped);
  \<^item> \<open>firstResult\<close>: the task whose result is first on \<open>resCh\<close>;
  \<^item> \<open>ochOrder\<close>: the order in which the value fetches arrive on \<open>och\<close>;
  \<^item> \<open>ctxErrAtEntry\<close>, \<open>doneBeforeReply\<close>: what the handler \<open>Sort\<close> sees of its context
    at entry and in its closing \<open>select\<close>.
\<close>

datatype strategy = NonIndexed | Indexed

record sched =
  timerFirst :: bool
  ctxNoIndex :: ctx
  ctxIndex :: ctx
  firstResult :: strategy
  ochOrder :: "nat list"
  ctxErrAtEntry :: bool
  doneBeforeReply :: bool

definition raceResults :: "'v env \<Rightarrow> sched \<Rightarrow> SortMessage \<Rightarrow> crash + 'v sortresult" where
  "raceResults env sc ts =
     (case (if timerFirst sc then sortWithoutIndex env (ctxNoIndex sc) ts
            else Inr \<lparr>reply = None, vals = [], err = Some Cancelled\<rparr>) of
        Inl cr \<Rightarrow> Inl cr
      | Inr rn \<Rightarrow>
          (case sortWithIndex env (ctxIndex sc) ts of
             Inl cr \<Rightarrow> Inl cr
           | Inr ri \<Rightarrow>
               (case (if firstResult sc = NonIndexed then (rn, ri) else (ri, rn)) of
                  (r1, r2) \<Rightarrow> Inr (if err r1 = None then r1 else r2))))"

definition destUids :: "uid list list \<Rightarrow> uid list" where
  "destUids uidMatrix = sort (remdups (concat uidMatrix))"

text \<open>
  Modelled from the spec: \<open>algo.IndexOf\<close> (package \<open>algo\<close> is not among the sources): the
  index of the identifier in the list, \<open>-1\<close> when it is not there.
\<close>

fun IndexOf :: "uid list \<Rightarrow> uid \<Rightarrow> int" where
  "IndexOf [] u = - 1"
| "IndexOf (x # xs) u =
     (if x = u then 0 else (let k = IndexOf xs u in if k < 0 then - 1 else k + 1))"

text \<open>The assignment \<open>sortVals[i][k] = v\<close>, with Go's index checks.\<close>

definition setCell :: "'v list list \<Rightarrow> int \<Rightarrow> nat \<Rightarrow> 'v \<Rightarrow> crash + 'v list list" where
  "setCell sortVals i k v =
     (if 0 \<le> i \<and> nat i < length sortVals \<and> k < length (sortVals ! nat i)
      then Inr (sortVals[nat i := (sortVals ! nat i)[k := v]])
      else Inl IndexOutOfRange)"

text \<open>
  The inner loop that fills column 0, over the identifiers of row \<open>i\<close> from position \<open>j\<close>,
  with \<open>vrow = r.vals[i]\<close>; \<open>seen\<close> lists the keys of the map.
\<close>

fun fillPrimaryRow ::
  "uid list \<Rightarrow> 'v list \<Rightarrow> nat \<Rightarrow> uid list \<Rightarrow> uid list \<Rightarrow> 'v list list
     \<Rightarrow> crash + (uid list \<times> 'v list list)"
where
  "fillPrimaryRow dest vrow j [] seen sortVals = Inr (seen, sortVals)"
| "fillPrimaryRow dest vrow j (u # us) seen sortVals =
     (let uidx = IndexOf dest u in
      case AssertTrue (uidx \<ge> 0) of
        Inl cr \<Rightarrow> Inl cr
      | Inr _ \<Rightarrow>
          if u \<in> set seen then fillPrimaryRow dest vrow (Suc j) us seen sortVals
          else if \<not> j < length vrow then Inl IndexOutOfRange
          else
            (case setCell sortVals uidx 0 (vrow ! j) of
               Inl cr \<Rightarrow> Inl cr
             | Inr sortVals' \<Rightarrow> fillPrimaryRow dest vrow (Suc j) us (u # seen) sortVals'))"

fun fillPrimary ::
  "uid list \<Rightarrow> 'v list list \<Rightarrow> nat \<Rightarrow> uid list list \<Rightarrow> uid list \<Rightarrow> 'v list list
     \<Rightarrow> crash + 'v list list"
where
  "fillPrimary dest rvals i [] seen sortVals = Inr sortVals"
| "fillPrimary dest rvals i (ul # uls) seen sortVals =
     (if \<not> i < length rvals then Inl IndexOutOfRange
      else
        (case AssertTrue (length ul = length (rvals ! i)) of
           Inl cr \<Rightarrow> Inl cr
         | Inr _ \<Rightarrow>
             (case fillPrimaryRow dest (rvals ! i) 0 ul seen sortVals of
                Inl cr \<Rightarrow> Inl cr
              | Inr (seen', sortVals') \<Rightarrow> fillPrimary dest rvals (Suc i) uls seen' sortVals')))"

text \<open>
  \<open>fetchValues\<close> for the attribute at position \<open>idx\<close>: what it sends on \<open>och\<close>, the
  position, the reply and the error of the task layer.
\<close>

type_synonym orderResult = "nat \<times> TaskValue list list option \<times> string option"

definition fetchValues :: "'v env \<Rightarrow> string \<Rightarrow> uid list \<Rightarrow> nat \<Rightarrow> orderResult" where
  "fetchValues env attr dest idx =
     (let rev = (take 1 attr = ''~'');
          a = (if rev then drop 1 attr else attr)
      in (idx, ProcessTaskOverNetwork env \<lparr>QAttr = a, QUidList = dest, QReverse = rev\<rparr>))"

text \<open>
  The order of arrival on a channel fed by concurrent senders: each choice picks one of
  the results still to come; with no choice left they come in the order they were started.
\<close>

function arrival :: "nat list \<Rightarrow> 'a list \<Rightarrow> 'a list" where
  "arrival cs [] = []"
| "arrival [] (x # xs) = x # xs"
| "arrival (c # cs) (x # xs) =
     (let k = c mod length (x # xs)
      in (x # xs) ! k # arrival cs (take k (x # xs) @ drop (Suc k) (x # xs)))"
  by pat_completeness auto
termination
  by (relation "measure (\<lambda>(cs, xs). length xs)") (auto simp: Let_def)

text \<open>
  The loop over \<open>destUids.Uids\<close> for one fetched attribute, from position \<open>i\<close>; \<open>Inl e\<close>
  inside the result is the conversion error on which \<open>processSort\<close> returns.
\<close>

fun fillSecondary ::
  "'v env \<Rightarrow> nat \<Rightarrow> TaskValue list list \<Rightarrow> nat \<Rightarrow> uid list \<Rightarrow> uid list \<Rightarrow> 'v list list
     \<Rightarrow> crash + (error + 'v list list)"
where
  "fillSecondary env idx valueMatrix i [] seen sortVals = Inr (Inr sortVals)"
| "fillSecondary env idx valueMatrix i (u # us) seen sortVals =
     (if u \<in> set seen then fillSecondary env idx valueMatrix (Suc i) us seen sortVals
      else if \<not> i < length valueMatrix then Inl IndexOutOfRange
      else
        (case valueMatrix ! i of
           [] \<Rightarrow> Inl IndexOutOfRange
         | v # _ \<Rightarrow>
             (case (if Val v = x_Nilbyte env then Inr (types_Nil env (ValType v))
                    else types_Convert env (types_FromBytes env (Val v) (ValType v)) (ValType v)) of
                Inl e \<Rightarrow> Inr (Inl (ErrExternal e))
              | Inr sv \<Rightarrow>
                  (case setCell sortVals (int i) idx sv of
                     Inl cr \<Rightarrow> Inl cr
                   | Inr sortVals' \<Rightarrow>
                       fillSecondary env idx valueMatrix (Suc i) us (u # seen) sortVals'))))"

text \<open>The loop that receives the \<open>len(ts.Attr) - 1\<close> fetches from \<open>och\<close>.\<close>

fun receiveOrders ::
  "'v env \<Rightarrow> uid list \<Rightarrow> orderResult list \<Rightarrow> string option \<Rightarrow> 'v list list
     \<Rightarrow> crash + (error + (string option \<times> 'v list list))"
where
  "receiveOrders env dest [] oerr sortVals = Inr (Inr (oerr, sortVals))"
| "receiveOrders env dest ((idx, res, e) # rest) oerr sortVals =
     (if e \<noteq> None \<and> oerr = None then receiveOrders env dest rest e sortVals
      else
        (case res of
           None \<Rightarrow> Inl NilDeref
         | Some valueMatrix \<Rightarrow>
             (case AssertTrue (length valueMatrix = length dest) of
                Inl cr \<Rightarrow> Inl cr
              | Inr _ \<Rightarrow>
                  (case fillSecondary env idx valueMatrix 0 dest [] sortVals of
                     Inl cr \<Rightarrow> Inl cr
                   | Inr (Inl e') \<Rightarrow> Inr (Inl e')
                   | Inr (Inr sortVals') \<Rightarrow> receiveOrders env dest rest oerr sortVals'))))"

text \<open>The value vectors of one row: \<open>vals[j] = sortVals[idx]\<close>.\<close>

fun rowVals :: "uid list \<Rightarrow> 'v list list \<Rightarrow> uid list \<Rightarrow> crash + 'v list list" where
  "rowVals dest sortVals [] = Inr []"
| "rowVals dest sortVals (u # us) =
     (let idx = IndexOf dest u in
      case AssertTrue (idx \<ge> 0) of
        Inl cr \<Rightarrow> Inl cr
      | Inr _ \<Rightarrow>
          if \<not> nat idx < length sortVals then Inl IndexOutOfRange
          else
            (case rowVals dest sortVals us of
               Inl cr \<Rightarrow> Inl cr
             | Inr vs \<Rightarrow> Inr (sortVals ! nat idx # vs)))"

text \<open>The closing loop of \<open>processSort\<close>: the multisort of each row, then its truncation.\<close>

fun multiSortRows ::
  "'v env \<Rightarrow> SortMessage \<Rightarrow> uid list \<Rightarrow> 'v list list \<Rightarrow> uid list list \<Rightarrow> crash + uid list list"
where
  "multiSortRows env ts dest sortVals [] = Inr []"
| "multiSortRows env ts dest sortVals (ul # uls) =
     (case rowVals dest sortVals ul of
        Inl cr \<Rightarrow> Inl cr
      | Inr vs \<Rightarrow>
          (case types_Sort env vs ul (Desc ts) of
             (_, suids) \<Rightarrow>
               (case AssertTrue (int (length suids) \<ge> Count ts) of
                  Inl cr \<Rightarrow> Inl cr
                | Inr _ \<Rightarrow>
                    (case slice suids 0 (Count ts) of
                       Inl cr \<Rightarrow> Inl cr
                     | Inr page \<Rightarrow>
                         (case multiSortRows env ts dest sortVals uls of
                            Inl cr \<Rightarrow> Inl cr
                          | Inr pages \<Rightarrow> Inr (page # pages))))))"

text \<open>
  The part of \<open>processSort\<close> after the race, for a request with several attributes whose
  primary result \<open>r\<close> has no error.
\<close>

definition multiSort ::
  "'v env \<Rightarrow> sched \<Rightarrow> SortMessage \<Rightarrow> 'v sortresult \<Rightarrow> crash + (SortResult option \<times> error option)"
where
  "multiSort env sc ts r =
     (case reply r of
        None \<Rightarrow> Inl NilDeref
      | Some rep \<Rightarrow>
          (let dest = destUids (ResUidMatrix rep);
               sortVals0 = replicate (length dest) (replicate (length (Attr ts)) (types_Zero env))
           in
             case fillPrimary dest (vals r) 0 (ResUidMatrix rep) [] sortVals0 of
               Inl cr \<Rightarrow> Inl cr
             | Inr sortVals1 \<Rightarrow>
                 (case receiveOrders env dest
                         (arrival (ochOrder sc)
                            (map (\<lambda>i. fetchValues env (Attr ts ! i) dest i)
                               [1 ..< length (Attr ts)]))
                         None sortVals1 of
                    Inl cr \<Rightarrow> Inl cr
                  | Inr (Inl e) \<Rightarrow> Inr (Some rep, Some e)
                  | Inr (Inr (Some oe, _)) \<Rightarrow> Inr (Some rep, Some (ErrExternal oe))
                  | Inr (Inr (None, sortVals2)) \<Rightarrow>
                      (case multiSortRows env ts dest sortVals2 (ResUidMatrix rep) of
                         Inl cr \<Rightarrow> Inl cr
                       | Inr pages \<Rightarrow> Inr (Some \<lparr>ResUidMatrix = pages\<rparr>, None)))))"

definition processSort ::
  "'v env \<Rightarrow> sched \<Rightarrow> SortMessage \<Rightarrow> crash + (SortResult option \<times> error option)"
where
  "processSort env sc ts =
     (if Count ts < 0 then Inr (None, Some ErrNegativeCount)
      else
        (case Attr ts of
           [] \<Rightarrow> Inl IndexOutOfRange
         | attr # _ \<Rightarrow>
             if schema_IsList env attr then Inr (None, Some ErrListType)
             else
               (case raceResults env sc ts of
                  Inl cr \<Rightarrow> Inl cr
                | Inr r \<Rightarrow>
                    if \<not> (length (Attr ts) > 1) \<or> err r \<noteq> None then Inr (reply r, err r)
                    else multiSort env sc ts r)))"

section \<open>The RPC handler\<close>

definition grpcWorker_Sort ::
  "'v env \<Rightarrow> sched \<Rightarrow> SortMessage \<Rightarrow> crash + (SortResult option \<times> error option)"
where
  "grpcWorker_Sort env sc s =
     (if ctxErrAtEntry sc then Inr (Some emptySortResult, Some Cancelled)
      else
        (case Attr s of
           [] \<Rightarrow> Inl IndexOutOfRange
         | attr # _ \<Rightarrow>
             (case AssertTrue (groups_ServesGroup env (group_BelongsTo env attr)) of
                Inl cr \<Rightarrow> Inl cr
              | Inr _ \<Rightarrow>
                  (case processSort env sc s of
                     Inl cr \<Rightarrow> Inl cr
                   | Inr (rep, e) \<Rightarrow>
                       if doneBeforeReply sc then Inr (Some emptySortResult, Some Cancelled)
                       else Inr (rep, e)))))"

section \<open>Error kinds\<close>

text \<open>
  Modelled from the spec: the error kind \<open>InvalidRequest\<close> of the spec's error handling
  design (negative count, sort on list or object type, undefined attribute); sort.go has
  error messages only. The four messages that say one of these things are of this kind; the
  not-indexed and not-sortable messages are the spec's kinds \<open>NotIndexed\<close> and
  \<open>NotSortable\<close>.
\<close>

definition isInvalidRequest :: "error \<Rightarrow> bool" where
  "isInvalidRequest e =
     (e = ErrNegativeCount \<or> e = ErrListType \<or> e = ErrObjectType \<or> e = ErrNotDefined)"

section \<open>A concrete catalog and store\<close>

text \<open>
  A small instance of the collaborators, used to run the definitions: values are naturals,
  \<open>age\<close> is an indexed integer attribute with a sortable tokenizer, \<open>rank\<close> an integer
  attribute without index, \<open>name\<close> a string attribute with a term index only, \<open>friend\<close> an
  object attribute owned by another group, \<open>tags\<close> a list attribute. The bucket of token
  \<open>10\<close> also holds the identifiers 5 and 6, which have no value to fetch.
\<close>

fun demo_less :: "bool list \<Rightarrow> nat list \<Rightarrow> nat list \<Rightarrow> bool" where
  "demo_less (d # ds) (a # as) (b # bs) =
     (if a = b then demo_less ds as bs else if d then b < a else a < b)"
| "demo_less _ _ _ = False"

fun demo_insert :: "bool list \<Rightarrow> nat list \<times> uid \<Rightarrow> (nat list \<times> uid) list \<Rightarrow> (nat list \<times> uid) list" where
  "demo_insert ds x [] = [x]"
| "demo_insert ds x (y # ys) =
     (if demo_less ds (fst y) (fst x) then y # demo_insert ds x ys else x # y # ys)"

definition demo_Sort :: "nat list list \<Rightarrow> uid list \<Rightarrow> bool list \<Rightarrow> string option \<times> uid list" where
  "demo_Sort vs us ds =
     (None, if length vs = length us then map snd (foldr (demo_insert ds) (zip vs us) []) else us)"

definition demo_age :: "uid \<Rightarrow> nat option" where
  "demo_age u =
     (if u = 1 then Some 30 else if u = 2 then Some 10 else if u = 3 then Some 20
      else if u = 4 then Some 10 else None)"

definition demo_rank :: "uid \<Rightarrow> nat option" where
  "demo_rank u =
     (if u = 1 then Some 7 else if u = 2 then Some 5 else if u = 3 then Some 9
      else if u = 4 then Some 2 else None)"

definition demo_env :: "nat env" where
  "demo_env =
     \<lparr>schema_TypeOf = (\<lambda>a. if a = ''age'' \<or> a = ''rank'' then Inr IntID
                           else if a = ''name'' \<or> a = ''tags'' then Inr StringID
                           else if a = ''friend'' then Inr UidID
                           else Inl ''not in schema''),
      schema_IsList = (\<lambda>a. a = ''tags''),
      schema_IsIndexed = (\<lambda>a. a = ''age'' \<or> a = ''name''),
      schema_Tokenizer = (\<lambda>a. if a = ''age''
                              then [\<lparr>Name = ''int'', Identifier = 6, IsSortable = True\<rparr>]
                              else if a = ''name''
                              then [\<lparr>Name = ''term'', Identifier = 1, IsSortable = False\<rparr>]
                              else []),
      index_Scan = (\<lambda>a i rv. if a = ''age'' \<and> i = 6
                             then (if rv then [''30'', ''20'', ''10''] else [''10'', ''20'', ''30''])
                             else []),
      posting_Uids = (\<lambda>a tok ul. if a = ''age''
                               then filter (\<lambda>u. u \<in> set ul)
                                      (if tok = ''10'' then [2, 4, 5, 6]
                                       else if tok = ''20'' then [3]
                                       else if tok = ''30'' then [1] else [])
                               else []),
      posting_ValueFor = (\<lambda>a u langs.
         case (if a = ''age'' then demo_age u else if a = ''rank'' then demo_rank u else None) of
           None \<Rightarrow> Inl ''no value''
         | Some v \<Rightarrow> Inr v),
      types_Convert = (\<lambda>v t. Inr v),
      types_Sort = demo_Sort,
      types_Zero = 0,
      types_Nil = (\<lambda>t. 0),
      types_FromBytes = (\<lambda>bs t. case bs of [] \<Rightarrow> 0 | b # _ \<Rightarrow> unat b),
      x_Nilbyte = [0],
      ProcessTaskOverNetwork = (\<lambda>q.
         (Some (map (\<lambda>u. [\<lparr>Val = (case demo_rank u of None \<Rightarrow> [0] | Some v \<Rightarrow> [of_nat v]),
                            ValType = IntID\<rparr>]) (QUidList q)), None)),
      group_BelongsTo = (\<lambda>a. if a = ''friend'' then 2 else 1),
      groups_ServesGroup = (\<lambda>g. g = 1)\<rparr>"


definition demo_ts :: "string list \<Rightarrow> int \<Rightarrow> int \<Rightarrow> uid list list \<Rightarrow> SortMessage" where
  "demo_ts attrs cnt off m =
     \<lparr>Attr = attrs, Desc = map (\<lambda>_. False) attrs, UidMatrix = m, Count = cnt, Offset = off,
      Langs = []\<rparr>"

definition demo_sched :: "strategy \<Rightarrow> sched" where
  "demo_sched first =
     \<lparr>timerFirst = True, ctxNoIndex = None, ctxIndex = None, firstResult = first,
      ochOrder = [], ctxErrAtEntry = False, doneBeforeReply = False\<rparr>"

section \<open>Basic facts\<close>

lemma slice_Inr:
  "slice xs lo hi = Inr ys \<Longrightarrow>
     0 \<le> lo \<and> lo \<le> hi \<and> hi \<le> int (length xs) \<and> ys = take (nat hi - nat lo) (drop (nat lo) xs)"
  by (auto simp: slice_def split: if_splits)

lemma slice_length: "slice xs lo hi = Inr ys \<Longrightarrow> int (length ys) = hi - lo"
  by (auto simp: slice_def split: if_splits)

lemma demo_insert_mset: "mset (demo_insert ds x ys) = mset (x # ys)"
  by (induction ys) auto

lemma demo_foldr_mset: "mset (foldr (demo_insert ds) xs []) = mset xs"
  by (induction xs) (auto simp: demo_insert_mset)

lemma demo_Sort_perm: "mset (snd (demo_Sort vs us ds)) = mset us"
proof (cases "length vs = length us")
  case True
  have "mset (map snd (foldr (demo_insert ds) (zip vs us) [])) =
          image_mset snd (mset (foldr (demo_insert ds) (zip vs us) []))"
    by simp
  also have "\<dots> = image_mset snd (mset (zip vs us))"
    by (simp only: demo_foldr_mset)
  also have "\<dots> = mset (map snd (zip vs us))" by simp
  also have "\<dots> = mset us" using True by simp
  finally show ?thesis using True by (simp add: demo_Sort_def)
next
  case False
  then show ?thesis by (simp add: demo_Sort_def)
qed

lemma demo_env_Sort_perm: "\<forall>vs us ds. mset (snd (types_Sort demo_env vs us ds)) = mset us"
  by (simp add: demo_env_def demo_Sort_perm)

section \<open>The row sorter drops identifiers without a value\<close>






section \<open>The RPC handler and the wrong shard\<close>

text \<open>
  C5, as the code has it. A request whose first attribute belongs to a group this server
  does not serve is not answered with an error: unless the context is already cancelled at
  entry (then the handler returns the empty result with the context's error before it
  looks at the group), the assertion on \<open>ServesGroup\<close> fails and ends the run before
  \<open>processSort\<close> is called, so nothing is returned to the caller.
\<close>

theorem Sort_wrong_shard_asserts:
  assumes "Attr s = attr # rest"
    and "\<not> groups_ServesGroup env (group_BelongsTo env attr)"
  shows "grpcWorker_Sort env sc s =
           (if ctxErrAtEntry sc then Inr (Some emptySortResult, Some Cancelled)
            else Inl AssertFailed)"
  using assms by (simp add: grpcWorker_Sort_def AssertTrue_def)

theorem Sort_wrong_shard_asserts_witness:
  "grpcWorker_Sort demo_env (demo_sched NonIndexed) (demo_ts [''friend'', ''age''] 2 0 [[1, 2]])
     = Inl AssertFailed"
proof -
  have a: "Attr (demo_ts [''friend'', ''age''] 2 0 [[1, 2]]) = ''friend'' # [''age'']"
    by (simp add: demo_ts_def)
  have g: "\<not> groups_ServesGroup demo_env (group_BelongsTo demo_env ''friend'')"
    by (simp add: demo_env_def)
  from Sort_wrong_shard_asserts [OF a g, of "demo_sched NonIndexed"]
  show ?thesis by (simp add: demo_sched_def)
qed

text \<open>
  C5 as stated fails: the group of \<open>friend\<close> is not served here, the context is live, and
  the handler ends in the failed assertion instead of returning an error.
\<close>

theorem Sort_wrong_shard_counterexample:
  "\<not> groups_ServesGroup demo_env (group_BelongsTo demo_env ''friend'')
   \<and> grpcWorker_Sort demo_env (demo_sched Indexed) (demo_ts [''friend''] 1 0 [[1]])
       = Inl AssertFailed"
  by code_simp

section \<open>The non-indexed result in a multi-attribute request\<close>

lemma sortWithoutIndex_loop_shape:
  "sortWithoutIndex_loop env ts t c rows racc = Inr (c', r) \<Longrightarrow> err r = None \<Longrightarrow>
     vals r = [] \<and> (\<exists>pages. reply r = Some \<lparr>ResUidMatrix = racc @ pages\<rparr> \<and> length pages = length rows)"
proof (induction rows arbitrary: c racc)
  case Nil
  then show ?case by auto
next
  case (Cons row rows)
  from Cons.prems obtain c2 page
    where "sortWithoutIndex_loop env ts t c2 rows (racc @ [page]) = Inr (c', r)"
    by (auto simp: failed_def split: prod.splits bool.splits sum.splits option.splits)
  from Cons.IH [OF this Cons.prems(2)] show ?case by auto
qed

lemma sortWithoutIndex_shape:
  assumes "sortWithoutIndex env c ts = Inr r" and "err r = None"
  shows "vals r = [] \<and> (\<exists>m. reply r = Some \<lparr>ResUidMatrix = m\<rparr> \<and> length m = length (UidMatrix ts))"
proof -
  from assms obtain t c' where "sortWithoutIndex_loop env ts t c (UidMatrix ts) [] = Inr (c', r)"
    by (auto simp: sortWithoutIndex_def sortWithoutIndex_run_def failed_def
             split: list.splits sum.splits if_splits prod.splits)
  from sortWithoutIndex_loop_shape [OF this assms(2)] show ?thesis by simp
qed

lemma multiSort_no_vals:
  assumes "reply r = Some rep" and "ResUidMatrix rep \<noteq> []" and "vals r = []"
  shows "multiSort env sc ts r = Inl IndexOutOfRange"
proof -
  from assms(2) obtain ul uls where "ResUidMatrix rep = ul # uls" by (cases "ResUidMatrix rep") auto
  with assms(1,3) show ?thesis by (simp add: multiSort_def)
qed

text \<open>
  C1, as the code has it. In a request with more than one attribute and a non-empty
  matrix, when the result the racer takes is the one of the non-indexed scanner (it is the
  first on the channel, or the indexed scanner failed) and has no error, \<open>processSort\<close>
  does not return it: the test before the extension looks only at the number of attributes
  and at the error, the extension starts, and reading \<open>r.vals[0]\<close> of a result without
  value vectors is out of range.
\<close>

theorem processSort_nonindexed_multi:
  assumes "1 < length (Attr ts)" and "0 \<le> Count ts" and "Attr ts = a # as"
    and "\<not> schema_IsList env a" and "UidMatrix ts \<noteq> []"
    and "timerFirst sc"
    and "sortWithoutIndex env (ctxNoIndex sc) ts = Inr rn" and "err rn = None"
    and "sortWithIndex env (ctxIndex sc) ts = Inr ri"
    and "firstResult sc = NonIndexed \<or> err ri \<noteq> None"
  shows "processSort env sc ts = Inl IndexOutOfRange"
proof -
  from assms(6-10) have race: "raceResults env sc ts = Inr rn"
    by (auto simp: raceResults_def)
  from sortWithoutIndex_shape [OF assms(7,8)] assms(5)
  obtain m where m: "reply rn = Some \<lparr>ResUidMatrix = m\<rparr>" "length m = length (UidMatrix ts)"
    and v: "vals rn = []"
    by blast
  from m(2) assms(5) have "m \<noteq> []" by auto
  with m(1) v have "multiSort env sc ts rn = Inl IndexOutOfRange"
    by (intro multiSort_no_vals [where rep = "\<lparr>ResUidMatrix = m\<rparr>"]) simp_all
  with race assms(1-4,8) show ?thesis by (simp add: processSort_def)
qed

theorem processSort_nonindexed_multi_witness:
  "processSort demo_env (demo_sched Indexed) (demo_ts [''rank'', ''age''] 1 0 [[1]])
     = Inl IndexOutOfRange
   \<and> sortWithoutIndex demo_env None (demo_ts [''rank'', ''age''] 1 0 [[1]])
       = Inr \<lparr>reply = Some \<lparr>ResUidMatrix = [[1]]\<rparr>, vals = [], err = None\<rparr>
   \<and> sortWithIndex demo_env None (demo_ts [''rank'', ''age''] 1 0 [[1]]) = Inr (failed ErrNotIndexed)"
proof -
  let ?ts = "demo_ts [''rank'', ''age''] 1 0 [[1]]"
  let ?sc = "demo_sched Indexed"
  have n: "sortWithoutIndex demo_env (ctxNoIndex ?sc) ?ts
             = Inr \<lparr>reply = Some \<lparr>ResUidMatrix = [[1]]\<rparr>, vals = [], err = None\<rparr>"
    by code_simp
  have i: "sortWithIndex demo_env (ctxIndex ?sc) ?ts = Inr (failed ErrNotIndexed)"
    by code_simp
  have "processSort demo_env ?sc ?ts = Inl IndexOutOfRange"
    by (rule processSort_nonindexed_multi [OF _ _ _ _ _ _ n _ i, where a = "''rank''" and as = "[''age'']"])
       (simp_all add: demo_ts_def demo_sched_def demo_env_def failed_def)
  with n i show ?thesis by (simp add: demo_sched_def)
qed

section \<open>The pagination window and values that are missing\<close>

text \<open>
  What the row step does keep: a row whose hits all lie before the window only has its
  offset reduced, and with one attribute and a positive count an accumulator never grows
  beyond \<open>count\<close>.
\<close>

lemma intersectRow_single_bound:
  assumes "length (Attr ts) = 1" and "0 < Count ts"
    and "int (length (ulist il)) \<le> Count ts"
    and "intersectRow env ts attr token scalar c ul il = Inr (c', il', eo)"
  shows "int (length (ulist il')) \<le> Count ts"
proof (cases "Count ts \<le> int (length (ulist il))")
  case True
  with assms show ?thesis by (simp add: intersectRow_def)
next
  case False
  with assms show ?thesis
    by (auto simp: intersectRow_def Let_def
             split: if_splits sum.splits prod.splits option.splits
             dest!: slice_length)
qed

lemma intersectRow_before_window:
  assumes "\<not> (0 < Count ts \<and> Count ts \<le> int (length (ulist il)))"
    and "int (length (posting_Uids env attr token ul)) \<le> offset il"
  shows "intersectRow env ts attr token scalar c ul il =
           Inr (c, il\<lparr>offset := offset il - int (length (posting_Uids env attr token ul))\<rparr>, None)"
  using assms by (auto simp: intersectRow_def Let_def)

text \<open>
  C3, as the code has it. The offset of a row is compared with the number of hits before
  the value sort, and not again after the sort has dropped the hits without a value. When
  the row is not skipped and the sort leaves fewer hits than the offset still to be
  consumed, dropping the first \<open>offset\<close> hits is the slice \<open>result.Uids[offset:n]\<close> with
  \<open>offset > n\<close>, which panics: the intersector does not drop the hits and reset the
  offset.
\<close>

theorem intersectRow_offset_past_sorted_hits:
  assumes "\<not> (0 < Count ts \<and> Count ts \<le> int (length (ulist il)))"
    and "offset il < int (length (posting_Uids env attr token ul))"
    and "sortByValue env c ts (posting_Uids env attr token ul) scalar
           = Inr (c', res, mvs, None)"
    and "int (length res) < offset il"
  shows "intersectRow env ts attr token scalar c ul il = Inl SliceBounds"
proof -
  from assms(4) have "0 < offset il" by simp
  with assms show ?thesis
    by (simp add: intersectRow_def slice_def Let_def)
qed

text \<open>
  The bucket of token \<open>10\<close> meets the row in four identifiers, of which only two have a
  value. With an offset of 3 the row is not skipped (3 < 4); the value sort leaves two
  hits, and the slice is \<open>result.Uids[3:2]\<close>. The same request panics in the scanner.
\<close>

theorem intersectRow_offset_past_sorted_hits_witness:
  "posting_Uids demo_env ''age'' ''10'' [2, 4, 5, 6] = [2, 4, 5, 6]
   \<and> sortByValue demo_env None (demo_ts [''age''] 5 3 [[2, 4, 5, 6]]) [2, 4, 5, 6] IntID
       = Inr (None, [2, 4], [], None)
   \<and> intersectRow demo_env (demo_ts [''age''] 5 3 [[2, 4, 5, 6]]) ''age'' ''10'' IntID None
         [2, 4, 5, 6] \<lparr>offset = 3, ulist = [], ivalues = []\<rparr>
       = Inl SliceBounds
   \<and> intersectBucket demo_env None (demo_ts [''age''] 5 3 [[2, 4, 5, 6]]) ''10''
         [\<lparr>offset = 3, ulist = [], ivalues = []\<rparr>]
       = Inl SliceBounds
   \<and> sortWithIndex demo_env None (demo_ts [''age''] 5 3 [[2, 4, 5, 6]]) = Inl SliceBounds"
proof -
  let ?ts = "demo_ts [''age''] 5 3 [[2, 4, 5, 6]]"
  let ?il = "\<lparr>offset = 3, ulist = [], ivalues = [] :: nat list\<rparr>"
  have hits: "posting_Uids demo_env ''age'' ''10'' [2, 4, 5, 6] = [2, 4, 5, 6]"
    by code_simp
  have srt: "sortByValue demo_env None ?ts [2, 4, 5, 6] IntID = Inr (None, [2, 4], [], None)"
    by code_simp
  have c1: "\<not> (0 < Count ?ts \<and> Count ?ts \<le> int (length (ulist ?il)))"
    by (simp add: demo_ts_def)
  have c2: "offset ?il < int (length (posting_Uids demo_env ''age'' ''10'' [2, 4, 5, 6]))"
    by (simp add: hits)
  have c3: "sortByValue demo_env None ?ts (posting_Uids demo_env ''age'' ''10'' [2, 4, 5, 6]) IntID
              = Inr (None, [2, 4], [], None)"
    by (simp only: hits srt)
  have c4: "int (length [2, 4 :: uid]) < offset ?il"
    by simp
  have "intersectRow demo_env ?ts ''age'' ''10'' IntID None [2, 4, 5, 6] ?il = Inl SliceBounds"
    by (rule intersectRow_offset_past_sorted_hits [OF c1 c2 c3 c4])
  moreover have "intersectBucket demo_env None ?ts ''10'' [?il] = Inl SliceBounds"
    by code_simp
  moreover have "sortWithIndex demo_env None ?ts = Inl SliceBounds"
    by code_simp
  ultimately show ?thesis using hits srt by simp
qed

section \<open>The closing loop of the extender\<close>

lemma multiSortRows_lengths:
  "multiSortRows env ts dest sv rows = Inr pages \<Longrightarrow>
     length pages = length rows \<and> (\<forall>p \<in> set pages. int (length p) = Count ts)"
proof (induction rows arbitrary: pages)
  case Nil
  then show ?case by simp
next
  case (Cons ul uls)
  from Cons.prems obtain suids page pages'
    where sl: "slice suids 0 (Count ts) = Inr page"
      and rest: "multiSortRows env ts dest sv uls = Inr pages'"
      and pg: "pages = page # pages'"
    by (auto split: sum.splits prod.splits)
  from slice_length [OF sl] have "int (length page) = Count ts" by simp
  with Cons.IH [OF rest] pg show ?case by simp
qed

lemma multiSort_success:
  assumes "multiSort env sc ts r = Inr (Some res, None)"
  shows "\<exists>rep. reply r = Some rep \<and> length (ResUidMatrix res) = length (ResUidMatrix rep)
           \<and> (\<forall>p \<in> set (ResUidMatrix res). int (length p) = Count ts)"
proof -
  from assms obtain rep dest sv
    where "reply r = Some rep"
      and "multiSortRows env ts dest sv (ResUidMatrix rep) = Inr (ResUidMatrix res)"
    by (auto simp: multiSort_def Let_def split: option.splits sum.splits prod.splits)
  with multiSortRows_lengths show ?thesis by blast
qed

lemma processSort_multi_success:
  assumes "1 < length (Attr ts)" and "processSort env sc ts = Inr (Some res, None)"
  shows "\<exists>r. raceResults env sc ts = Inr r \<and> err r = None
           \<and> multiSort env sc ts r = Inr (Some res, None)"
  using assms
  by (auto simp: processSort_def split: if_splits list.splits sum.splits)

lemma demo_env_Sort_length:
  "\<forall>vs us ds. length (snd (types_Sort demo_env vs us ds)) = length us"
  using demo_env_Sort_perm by (metis mset_eq_length)

lemma multiSortRows_short_row:
  assumes "\<forall>vs us ds. length (snd (types_Sort env vs us ds)) = length us"
    and "ul \<in> set rows" and "int (length ul) < Count ts"
  shows "\<exists>cr. multiSortRows env ts dest sv rows = Inl cr"
  using assms(2)
proof (induction rows)
  case Nil
  then show ?case by simp
next
  case (Cons row rows)
  show ?case
  proof (cases "ul = row")
    case True
    have "length b = length row" if "types_Sort env vs row (Desc ts) = (e, b)" for vs e b
      using assms(1) that by (metis snd_conv)
    with True assms(3) show ?thesis
      by (fastforce simp: AssertTrue_def split: sum.splits prod.splits)
  next
    case False
    with Cons.prems have "ul \<in> set rows" by simp
    from Cons.IH [OF this] show ?thesis
      by (auto split: sum.splits prod.splits)
  qed
qed

text \<open>
  C4, as the code has it. Nothing makes the rows of the primary result hold \<open>count\<close>
  identifiers: when a row that reaches the closing loop of the extender is shorter than
  \<open>count\<close>, the loop does not return (the assertion before the truncation fails, unless
  an earlier step of the loop has failed already). \<open>types.Sort\<close> is assumed to keep the
  length of the list.
\<close>

theorem multiSortRows_short_row_fails:
  assumes "\<forall>vs us ds. length (snd (types_Sort env vs us ds)) = length us"
    and "ul \<in> set rows" and "int (length ul) < Count ts"
  shows "\<forall>pages. multiSortRows env ts dest sv rows \<noteq> Inr pages"
  using multiSortRows_short_row [OF assms, of dest sv] by auto

theorem multiSortRows_short_row_fails_witness:
  "sortWithIndex demo_env None (demo_ts [''age'', ''rank''] 5 0 [[1, 2]])
     = Inr \<lparr>reply = Some \<lparr>ResUidMatrix = [[2, 1]]\<rparr>, vals = [[10, 30]], err = None\<rparr>
   \<and> multiSortRows demo_env (demo_ts [''age'', ''rank''] 5 0 [[1, 2]]) [1, 2]
         [[30, 7], [10, 5]] [[2, 1]] \<noteq> Inr [[2, 1]]
   \<and> processSort demo_env (demo_sched Indexed) (demo_ts [''age'', ''rank''] 5 0 [[1, 2]])
       = Inl AssertFailed"
proof -
  let ?ts = "demo_ts [''age'', ''rank''] 5 0 [[1, 2]]"
  have "[2, 1] \<in> set [[2, 1 :: uid]]" "int (length [2, 1 :: uid]) < Count ?ts"
    by (simp_all add: demo_ts_def)
  from multiSortRows_short_row_fails [OF demo_env_Sort_length this]
  have "multiSortRows demo_env ?ts [1, 2] [[30, 7], [10, 5]] [[2, 1]] \<noteq> Inr [[2, 1]]"
    by blast
  moreover have "sortWithIndex demo_env None ?ts
     = Inr \<lparr>reply = Some \<lparr>ResUidMatrix = [[2, 1]]\<rparr>, vals = [[10, 30]], err = None\<rparr>"
    by code_simp
  moreover have "processSort demo_env (demo_sched Indexed) ?ts = Inl AssertFailed"
    by code_simp
  ultimately show ?thesis by simp
qed

text \<open>
  C10. A request with more than one attribute and a count of zero that \<open>processSort\<close>
  answers without error has gone through the closing loop of the extender, which cuts
  every row to its first \<open>count\<close> identifiers: every row of the answer is empty. (The
  pagination helper of the non-indexed scanner reads a count of zero as all.)
\<close>

theorem processSort_multi_count_zero:
  assumes "1 < length (Attr ts)" and "Count ts = 0"
    and "processSort env sc ts = Inr (Some res, None)"
  shows "\<forall>row \<in> set (ResUidMatrix res). row = []"
proof -
  from processSort_multi_success [OF assms(1,3)]
  obtain r where "multiSort env sc ts r = Inr (Some res, None)" by blast
  from multiSort_success [OF this] assms(2) show ?thesis by auto
qed

theorem processSort_multi_count_zero_witness:
  "processSort demo_env (demo_sched Indexed) (demo_ts [''age'', ''rank''] 0 0 [[1, 2, 3, 4], [3]])
     = Inr (Some \<lparr>ResUidMatrix = [[], []]\<rparr>, None)
   \<and> paginate (demo_ts [''age''] 0 0 []) [2, 4, 3, 1] = Inr [2, 4, 3, 1]"
proof -
  let ?ts = "demo_ts [''age'', ''rank''] 0 0 [[1, 2, 3, 4], [3]]"
  have run: "processSort demo_env (demo_sched Indexed) ?ts
               = Inr (Some \<lparr>ResUidMatrix = [[], []]\<rparr>, None)"
    by code_simp
  have "1 < length (Attr ?ts)" "Count ?ts = 0" by (simp_all add: demo_ts_def)
  from processSort_multi_count_zero [OF this run]
  have "\<forall>row \<in> set (ResUidMatrix \<lparr>ResUidMatrix = [[], []]\<rparr>). row = ([] :: uid list)" .
  moreover have "paginate (demo_ts [''age''] 0 0 []) [2, 4, 3, 1] = Inr [2, 4, 3, 1]"
    by code_simp
  ultimately show ?thesis using run by simp
qed

section \<open>Cancellation\<close>

lemma ctxDone_open: "ctxDone c = (False, c') \<Longrightarrow> c' \<noteq> Some 0"
  by (cases c rule: ctxDone.cases) auto

lemma ctxDone_seen: "ctxDone c = (True, c') \<Longrightarrow> c' = Some 0"
  by (cases c rule: ctxDone.cases) auto

text \<open>
  In the row sorter: from a context that no poll has found cancelled, the loop ends in
  the state \<open>Some 0\<close> exactly when one of its polls found the context cancelled.
\<close>

lemma sortByValue_loop_observed:
  "sortByValue_loop env ts t c ul uids vs msv = Inr (c', cancelled, uids', vs', msv') \<Longrightarrow>
   c \<noteq> Some 0 \<Longrightarrow> cancelled = (c' = Some 0)"
proof (induction ul arbitrary: c uids vs msv)
  case Nil
  then show ?case by auto
next
  case (Cons u ul)
  obtain b c1 where p: "ctxDone c = (b, c1)" by (cases "ctxDone c")
  show ?case
  proof (cases b)
    case True
    with p Cons.prems ctxDone_seen [of c c1] show ?thesis by auto
  next
    case False
    with p have o: "c1 \<noteq> Some 0" by (auto dest: ctxDone_open)
    from False p Cons.prems(1) obtain uids1 vs1 msv1
      where "sortByValue_loop env ts t c1 ul uids1 vs1 msv1 = Inr (c', cancelled, uids', vs', msv')"
      by (auto split: list.splits sum.splits)
    from Cons.IH [OF this o] show ?thesis .
  qed
qed

lemma sortByValue_observed:
  assumes "sortByValue env c ts ul t = Inr (c', ul', mv, e)" and "c \<noteq> Some 0"
  shows "(c' = Some 0) = (e = Some Cancelled)"
proof -
  from assms(1) obtain cancelled uids vs msv
    where lp: "sortByValue_loop env ts t c ul [] [] [] = Inr (c', cancelled, uids, vs, msv)"
      and e: "cancelled \<longrightarrow> e = Some Cancelled" "\<not> cancelled \<longrightarrow> e \<noteq> Some Cancelled"
    by (auto simp: sortByValue_def split: sum.splits prod.splits if_splits list.splits)
  from sortByValue_loop_observed [OF lp assms(2)] e show ?thesis by auto
qed

text \<open>
  In the intersector: a row step, the loop over the rows and the whole bucket end in the
  state \<open>Some 0\<close> exactly when they return the cancellation error.
\<close>

lemma intersectRow_observed:
  assumes "intersectRow env ts attr token scalar c ul il = Inr (c', il', eo)" and "c \<noteq> Some 0"
  shows "(c' = Some 0) = (eo = Some Cancelled)"
proof (cases "\<exists>res mv e. sortByValue env c ts (posting_Uids env attr token ul) scalar
                           = Inr (c', res, mv, e) \<and> (e = Some Cancelled) = (eo = Some Cancelled)")
  case True
  with sortByValue_observed [OF _ assms(2)] show ?thesis by blast
next
  case False
  with assms have "c' = c \<and> eo = None"
    by (auto simp: intersectRow_def Let_def
             split: if_splits sum.splits prod.splits option.splits)
  with assms(2) show ?thesis by simp
qed

lemma intersectRows_observed:
  "intersectRows env ts attr token scalar c rows out = Inr (c', out', eo) \<Longrightarrow> c \<noteq> Some 0 \<Longrightarrow>
     (c' = Some 0) = (eo = Some Cancelled)"
proof (induction rows arbitrary: c out out')
  case Nil
  then show ?case by auto
next
  case (Cons ul uls)
  from Cons.prems(1) obtain il ils where out: "out = il # ils"
    by (cases out) auto
  from Cons.prems(1) out obtain c1 il1 e1
    where row: "intersectRow env ts attr token scalar c ul il = Inr (c1, il1, e1)"
    by (auto split: sum.splits)
  note o = intersectRow_observed [OF row Cons.prems(2)]
  show ?case
  proof (cases e1)
    case (Some e)
    with row out Cons.prems(1) have "c' = c1" "eo = e1" by auto
    with o show ?thesis by simp
  next
    case None
    with o have c1: "c1 \<noteq> Some 0" by simp
    from None row out Cons.prems(1) obtain ils1
      where "intersectRows env ts attr token scalar c1 uls ils = Inr (c', ils1, eo)"
      by (auto split: sum.splits)
    from Cons.IH [OF this c1] show ?thesis .
  qed
qed

lemma checkSizes_not_cancelled: "checkSizes ts rows out = Inr e \<Longrightarrow> e \<noteq> Cancelled"
  by (induction ts rows out rule: checkSizes.induct)
     (auto simp: AssertTrue_def split: if_splits sum.splits)

lemma intersectBucket_observed:
  assumes "intersectBucket env c ts token out = Inr (c', out', e)" and "c \<noteq> Some 0"
  shows "(c' = Some 0) = (e = Cancelled)"
proof (cases "\<exists>a t eo. intersectRows env ts a token t c (UidMatrix ts) out = Inr (c', out', eo)
                        \<and> (eo = Some Cancelled) = (e = Cancelled)")
  case True
  with intersectRows_observed [OF _ assms(2)] show ?thesis by blast
next
  case False
  with assms(1) have "c' = c \<and> e = ErrObjectType"
    by (auto simp: intersectBucket_def
             split: list.splits sum.splits if_splits prod.splits option.splits
             dest: checkSizes_not_cancelled)
  with assms(2) show ?thesis by simp
qed

text \<open>In the loop over the buckets, and in the indexed scanner with its closing poll.\<close>

lemma sortWithIndex_buckets_observed:
  "sortWithIndex_buckets env ts c tokens out = Inr (c', res) \<Longrightarrow> c \<noteq> Some 0 \<Longrightarrow>
     (c' = Some 0) = (res = Inl Cancelled)"
proof (induction tokens arbitrary: c out)
  case Nil
  then show ?case by auto
next
  case (Cons token tokens)
  obtain b c1 where p: "ctxDone c = (b, c1)" by (cases "ctxDone c")
  show ?case
  proof (cases b)
    case True
    with p Cons.prems ctxDone_seen [of c c1] show ?thesis by auto
  next
    case False
    with p have o: "c1 \<noteq> Some 0" by (auto dest: ctxDone_open)
    from False p Cons.prems(1) obtain c2 out2 e
      where b: "intersectBucket env c1 ts token out = Inr (c2, out2, e)"
      by (auto split: sum.splits)
    note ob = intersectBucket_observed [OF b o]
    show ?thesis
    proof (cases "e = errContinue")
      case True
      with ob have c2: "c2 \<noteq> Some 0" by simp
      from True False p b Cons.prems(1)
      have "sortWithIndex_buckets env ts c2 tokens out2 = Inr (c', res)" by simp
      from Cons.IH [OF this c2] show ?thesis .
    next
      case ne: False
      with False p b Cons.prems(1)
      have "c' = c2 \<and> res = (if e = errDone then Inr out2 else Inl e)"
        by (auto split: if_splits)
      with ob show ?thesis by auto
    qed
  qed
qed

lemma sortWithIndex_run_observed:
  assumes "sortWithIndex_run env c ts = Inr (c', r)" and "c \<noteq> Some 0"
  shows "(c' = Some 0) = (r = failed Cancelled)"
proof -
  from assms(1) obtain d ds attr rest where D: "Desc ts = d # ds" and A: "Attr ts = attr # rest"
    by (auto simp: sortWithIndex_run_def Let_def split: list.splits)
  note unf = sortWithIndex_run_def Let_def D A list.case
  show ?thesis
  proof (cases "schema_TypeOf env attr")
    case (Inl m)
    with assms show ?thesis by (auto simp: unf failed_def)
  next
    case ty: (Inr ty)
    show ?thesis
    proof (cases "schema_IsIndexed env attr")
      case False
      with assms ty show ?thesis by (auto simp: unf failed_def)
    next
      case True
      show ?thesis
      proof (cases "find IsSortable (schema_Tokenizer env attr)")
        case None
        with assms ty True show ?thesis by (auto simp: unf failed_def split: if_splits)
      next
        case (Some tk)
        let ?out = "replicate (length (UidMatrix ts)) \<lparr>offset = Offset ts, ulist = [], ivalues = []\<rparr>"
        let ?toks = "index_Scan env attr (Identifier tk) d"
        from assms(1) ty True Some
        have run: "(case sortWithIndex_buckets env ts c ?toks ?out of
                      Inl cr \<Rightarrow> Inl cr
                    | Inr (c1, Inl e) \<Rightarrow> Inr (c1, failed e)
                    | Inr (c1, Inr out') \<Rightarrow>
                        (case ctxDone c1 of
                           (True, c2) \<Rightarrow> Inr (c2, failed Cancelled)
                         | (False, c2) \<Rightarrow>
                             Inr (c2,
                                  \<lparr>reply = Some \<lparr>ResUidMatrix = map ulist out'\<rparr>,
                                   vals = (if length (Attr ts) > 1
                                           then map ivalues out' else []),
                                   err = None\<rparr>))) = Inr (c', r)"
          by (simp add: unf)
        then obtain c1 res where lp: "sortWithIndex_buckets env ts c ?toks ?out = Inr (c1, res)"
          by (auto split: sum.splits)
        note ob = sortWithIndex_buckets_observed [OF lp assms(2)]
        show ?thesis
        proof (cases res)
          case (Inl e)
          with run lp have "c' = c1" "r = failed e" by auto
          with ob Inl show ?thesis by (auto simp: failed_def)
        next
          case (Inr out')
          with ob have o: "c1 \<noteq> Some 0" by simp
          obtain b c2 where p: "ctxDone c1 = (b, c2)" by (cases "ctxDone c1")
          show ?thesis
          proof (cases b)
            case True
            with run lp Inr p have "c' = c2" "r = failed Cancelled" by auto
            with True p ctxDone_seen [of c1 c2] show ?thesis by simp
          next
            case False
            with run lp Inr p have "c' = c2" "err r = None" by auto
            with False p ctxDone_open [of c1 c2] show ?thesis by (auto simp: failed_def)
          qed
        qed
      qed
    qed
  qed
qed

text \<open>In the loop over the rows, and in the non-indexed scanner.\<close>

lemma sortWithoutIndex_loop_observed:
  "sortWithoutIndex_loop env ts t c rows racc = Inr (c', r) \<Longrightarrow> c \<noteq> Some 0 \<Longrightarrow>
     (c' = Some 0) = (r = failed Cancelled)"
proof (induction rows arbitrary: c racc)
  case Nil
  then show ?case by (auto simp: failed_def)
next
  case (Cons row rows)
  obtain b c1 where p: "ctxDone c = (b, c1)" by (cases "ctxDone c")
  show ?case
  proof (cases b)
    case True
    with p Cons.prems ctxDone_seen [of c c1] show ?thesis by auto
  next
    case False
    with p have o: "c1 \<noteq> Some 0" by (auto dest: ctxDone_open)
    from False p Cons.prems(1) obtain c2 tmp mv e
      where sv: "sortByValue env c1 ts row t = Inr (c2, tmp, mv, e)"
      by (auto split: sum.splits)
    note ob = sortByValue_observed [OF sv o]
    show ?thesis
    proof (cases e)
      case (Some er)
      with False p sv Cons.prems(1) have "c' = c2" "r = failed er" by auto
      with ob Some show ?thesis by (auto simp: failed_def)
    next
      case None
      with ob have c2: "c2 \<noteq> Some 0" by simp
      from None False p sv Cons.prems(1) obtain page
        where "sortWithoutIndex_loop env ts t c2 rows (racc @ [page]) = Inr (c', r)"
        by (auto split: sum.splits)
      from Cons.IH [OF this c2] show ?thesis .
    qed
  qed
qed

lemma sortWithoutIndex_run_observed:
  assumes "sortWithoutIndex_run env c ts = Inr (c', r)" and "c \<noteq> Some 0"
  shows "(c' = Some 0) = (r = failed Cancelled)"
proof (cases "\<exists>t. sortWithoutIndex_loop env ts t c (UidMatrix ts) [] = Inr (c', r)")
  case True
  with sortWithoutIndex_loop_observed [OF _ assms(2)] show ?thesis by blast
next
  case False
  with assms(1) have "c' = c \<and> r = failed ErrObjectType"
    by (auto simp: sortWithoutIndex_run_def split: list.splits sum.splits if_splits)
  with assms(2) show ?thesis by (auto simp: failed_def)
qed

text \<open>
  A run that starts in the state \<open>Some 0\<close> returns what the run returns whose context is
  cancelled before its first poll.
\<close>

lemma sortWithIndex_seen_start:
  "sortWithIndex env (Some 0) ts = sortWithIndex env (Some (Suc 0)) ts"
proof (cases "Desc ts")
  case Nil
  then show ?thesis by (simp add: sortWithIndex_def sortWithIndex_run_def)
next
  case D: (Cons d ds)
  show ?thesis
  proof (cases "Attr ts")
    case Nil
    with D show ?thesis by (simp add: sortWithIndex_def sortWithIndex_run_def)
  next
    case A: (Cons attr rest)
    show ?thesis
    proof (cases "find IsSortable (schema_Tokenizer env attr)")
      case None
      with D A show ?thesis
        by (simp add: sortWithIndex_def sortWithIndex_run_def split: sum.splits)
    next
      case (Some tk)
      show ?thesis
      proof (cases "index_Scan env attr (Identifier tk) d")
        case Nil
        with D A Some show ?thesis
          by (simp add: sortWithIndex_def sortWithIndex_run_def split: sum.splits)
      next
        case (Cons token tokens)
        with D A Some show ?thesis
          by (simp add: sortWithIndex_def sortWithIndex_run_def split: sum.splits)
      qed
    qed
  qed
qed

lemma sortWithoutIndex_seen_start:
  "sortWithoutIndex env (Some 0) ts = sortWithoutIndex env (Some (Suc 0)) ts"
proof -
  have "(case sortWithoutIndex_loop env ts t (Some 0) rows racc of
           Inl cr \<Rightarrow> Inl cr | Inr (_, r) \<Rightarrow> Inr r)
        = (case sortWithoutIndex_loop env ts t (Some (Suc 0)) rows racc of
             Inl cr \<Rightarrow> Inl cr | Inr (_, r) \<Rightarrow> Inr r)" for t rows racc
    by (cases rows) auto
  then show ?thesis
    by (auto simp: sortWithoutIndex_def sortWithoutIndex_run_def
             split: list.splits sum.splits)
qed

text \<open>
  C6. Every run of the indexed and of the non-indexed scanner in which a poll finds the
  context cancelled (the run starts with a context that no poll has found cancelled and
  leaves it in the state \<open>Some 0\<close>) returns the cancellation error paired with the empty
  sort result and no value vectors, wherever the poll is: at a bucket, at a row, in the row
  sorter, or in the closing \<open>select\<close> of the indexed scanner. No other run returns the
  cancellation error, so no result that carries it holds an identifier matrix. (A run
  that starts in the state \<open>Some 0\<close> returns what the run from \<open>Some (Suc 0)\<close> returns.)
\<close>

theorem cancellation_returns_empty:
  "(sortWithIndex_run env c ts = Inr (c', r) \<and> c \<noteq> Some 0 \<longrightarrow>
      (c' = Some 0) = (r = failed Cancelled)
      \<and> (err r = Some Cancelled \<longrightarrow> reply r = Some emptySortResult \<and> vals r = []))
   \<and> (sortWithoutIndex_run env c ts = Inr (c', r) \<and> c \<noteq> Some 0 \<longrightarrow>
      (c' = Some 0) = (r = failed Cancelled)
      \<and> (err r = Some Cancelled \<longrightarrow> reply r = Some emptySortResult \<and> vals r = []))
   \<and> sortWithIndex env c ts =
       (case sortWithIndex_run env c ts of Inl cr \<Rightarrow> Inl cr | Inr (c', r) \<Rightarrow> Inr r)
   \<and> sortWithoutIndex env c ts =
       (case sortWithoutIndex_run env c ts of Inl cr \<Rightarrow> Inl cr | Inr (c', r) \<Rightarrow> Inr r)
   \<and> sortWithIndex env (Some 0) ts = sortWithIndex env (Some (Suc 0)) ts
   \<and> sortWithoutIndex env (Some 0) ts = sortWithoutIndex env (Some (Suc 0)) ts"
proof -
  have e: "reply r = Some emptySortResult \<and> vals r = []"
    if "sortWithIndex_run env c ts = Inr (c', r)" and "err r = Some Cancelled"
    using that
    by (auto simp: sortWithIndex_run_def failed_def Let_def
             split: list.splits sum.splits if_splits option.splits prod.splits bool.splits)
  have "reply r = Some emptySortResult \<and> vals r = []"
    if "sortWithoutIndex_loop env ts t c rows racc = Inr (c', r)" and "err r = Some Cancelled"
    for t c rows racc
    using that
  proof (induction rows arbitrary: c racc)
    case Nil
    then show ?case by auto
  next
    case (Cons row rows)
    show ?case
    proof (cases "\<exists>c2 page. sortWithoutIndex_loop env ts t c2 rows (racc @ [page]) = Inr (c', r)")
      case True
      with Cons.IH Cons.prems(2) show ?thesis by blast
    next
      case False
      with Cons.prems show ?thesis
        by (auto simp: failed_def split: prod.splits bool.splits sum.splits option.splits)
    qed
  qed
  then have n: "reply r = Some emptySortResult \<and> vals r = []"
    if "sortWithoutIndex_run env c ts = Inr (c', r)" and "err r = Some Cancelled"
    using that
    by (auto simp: sortWithoutIndex_run_def failed_def split: list.splits sum.splits if_splits)
  from e n sortWithIndex_run_observed [of env c ts c' r]
    sortWithoutIndex_run_observed [of env c ts c' r]
  have "(sortWithIndex_run env c ts = Inr (c', r) \<and> c \<noteq> Some 0 \<longrightarrow>
      (c' = Some 0) = (r = failed Cancelled)
      \<and> (err r = Some Cancelled \<longrightarrow> reply r = Some emptySortResult \<and> vals r = []))
   \<and> (sortWithoutIndex_run env c ts = Inr (c', r) \<and> c \<noteq> Some 0 \<longrightarrow>
      (c' = Some 0) = (r = failed Cancelled)
      \<and> (err r = Some Cancelled \<longrightarrow> reply r = Some emptySortResult \<and> vals r = []))"
    by simp
  moreover have "sortWithIndex env c ts =
       (case sortWithIndex_run env c ts of Inl cr \<Rightarrow> Inl cr | Inr (c', r) \<Rightarrow> Inr r)"
    by (simp add: sortWithIndex_def)
  moreover have "sortWithoutIndex env c ts =
       (case sortWithoutIndex_run env c ts of Inl cr \<Rightarrow> Inl cr | Inr (c', r) \<Rightarrow> Inr r)"
    by (simp add: sortWithoutIndex_def)
  moreover note sortWithIndex_seen_start [of env ts] sortWithoutIndex_seen_start [of env ts]
  ultimately show ?thesis by blast
qed

text \<open>
  The context is cancelled after the first poll of each scanner: the second poll, in the
  row sorter, finds it so.
\<close>

theorem cancellation_returns_empty_witness:
  "sortWithIndex_run demo_env (Some 2) (demo_ts [''age''] 3 0 [[1, 2, 3, 4]])
     = Inr (Some 0, failed Cancelled)
   \<and> sortWithoutIndex_run demo_env (Some 2) (demo_ts [''age''] 3 0 [[1, 2, 3, 4]])
       = Inr (Some 0, failed Cancelled)
   \<and> sortWithIndex demo_env (Some 2) (demo_ts [''age''] 3 0 [[1, 2, 3, 4]])
       = Inr (failed Cancelled)
   \<and> reply (failed Cancelled :: nat sortresult) = Some emptySortResult
   \<and> vals (failed Cancelled :: nat sortresult) = []"
proof -
  let ?ts = "demo_ts [''age''] 3 0 [[1, 2, 3, 4]]"
  have i: "sortWithIndex_run demo_env (Some 2) ?ts = Inr (Some 0, failed Cancelled)"
    by code_simp
  have n: "sortWithoutIndex_run demo_env (Some 2) ?ts = Inr (Some 0, failed Cancelled)"
    by code_simp
  have o: "Some (2 :: nat) \<noteq> Some 0" by simp
  have e: "err (failed Cancelled :: nat sortresult) = Some Cancelled" by (simp add: failed_def)
  note t = cancellation_returns_empty [of demo_env "Some 2" ?ts "Some 0" "failed Cancelled"]
  from t i o e
  have "reply (failed Cancelled :: nat sortresult) = Some emptySortResult
        \<and> vals (failed Cancelled :: nat sortresult) = []"
    by blast
  moreover from t i have "sortWithIndex demo_env (Some 2) ?ts = Inr (failed Cancelled)"
    by simp
  ultimately show ?thesis using i n by simp
qed

section \<open>Preconditions of the indexed scanner\<close>








section \<open>The intersector with several attributes\<close>













section \<open>Requests that processSort refuses\<close>

text \<open>
  C8, as the code has it. A negative count and a list attribute are refused by
  \<open>processSort\<close> itself, with no result. An undefined and an object attribute are refused
  by both scanners, and the racer returns the result that comes second: for an undefined
  attribute both errors are of the kind \<open>InvalidRequest\<close>; for an object attribute (which
  has no index) it is the object-type error when the indexed scanner reports first, and the
  not-indexed error of the indexed scanner when the non-indexed scanner reports first. In
  both cases the result is the empty one. Assumed for these two cases: the request has a
  direction, and the non-indexed task's timer fires before it sees the context cancelled.
\<close>

theorem processSort_invalid_requests:
  "(Count ts < 0 \<longrightarrow> processSort env sc ts = Inr (None, Some ErrNegativeCount))
   \<and> (0 \<le> Count ts \<and> Attr ts = a # as \<and> schema_IsList env a \<longrightarrow>
        processSort env sc ts = Inr (None, Some ErrListType))
   \<and> (0 \<le> Count ts \<and> Attr ts = a # as \<and> Desc ts \<noteq> [] \<and> \<not> schema_IsList env a
        \<and> timerFirst sc \<and> isl (schema_TypeOf env a) \<longrightarrow>
        processSort env sc ts =
          Inr (Some emptySortResult,
               Some (if firstResult sc = Indexed then ErrObjectType else ErrNotDefined)))
   \<and> (0 \<le> Count ts \<and> Attr ts = a # as \<and> Desc ts \<noteq> [] \<and> \<not> schema_IsList env a
        \<and> timerFirst sc \<and> schema_TypeOf env a = Inr UidID \<and> \<not> schema_IsIndexed env a \<longrightarrow>
        processSort env sc ts =
          Inr (Some emptySortResult,
               Some (if firstResult sc = Indexed then ErrObjectType else ErrNotIndexed)))
   \<and> isInvalidRequest ErrNegativeCount \<and> isInvalidRequest ErrListType
   \<and> isInvalidRequest ErrObjectType \<and> isInvalidRequest ErrNotDefined
   \<and> \<not> isInvalidRequest ErrNotIndexed"
proof -
  have p1: "Count ts < 0 \<longrightarrow> processSort env sc ts = Inr (None, Some ErrNegativeCount)"
    by (simp add: processSort_def)
  have p2: "0 \<le> Count ts \<and> Attr ts = a # as \<and> schema_IsList env a \<longrightarrow>
        processSort env sc ts = Inr (None, Some ErrListType)"
    by (simp add: processSort_def)
  have p3: "processSort env sc ts =
          Inr (Some emptySortResult,
               Some (if firstResult sc = Indexed then ErrObjectType else ErrNotDefined))"
    if "0 \<le> Count ts" "Attr ts = a # as" "Desc ts \<noteq> []" "\<not> schema_IsList env a"
      "timerFirst sc" "isl (schema_TypeOf env a)"
  proof -
    from that obtain m d ds where m: "schema_TypeOf env a = Inl m" and d: "Desc ts = d # ds"
      by (cases "schema_TypeOf env a"; cases "Desc ts") auto
    from that m have n: "sortWithoutIndex env (ctxNoIndex sc) ts = Inr (failed ErrObjectType)"
      by (simp add: sortWithoutIndex_def sortWithoutIndex_run_def failed_def)
    from that m d have i: "sortWithIndex env (ctxIndex sc) ts = Inr (failed ErrNotDefined)"
      by (simp add: sortWithIndex_def sortWithIndex_run_def)
    from n i that have "raceResults env sc ts =
        Inr (failed (if firstResult sc = Indexed then ErrObjectType else ErrNotDefined))"
      by (cases "firstResult sc") (simp_all add: raceResults_def failed_def)
    with that show ?thesis by (simp add: processSort_def failed_def)
  qed
  have p4: "processSort env sc ts =
          Inr (Some emptySortResult,
               Some (if firstResult sc = Indexed then ErrObjectType else ErrNotIndexed))"
    if "0 \<le> Count ts" "Attr ts = a # as" "Desc ts \<noteq> []" "\<not> schema_IsList env a"
      "timerFirst sc" "schema_TypeOf env a = Inr UidID" "\<not> schema_IsIndexed env a"
  proof -
    from that obtain d ds where d: "Desc ts = d # ds"
      by (cases "Desc ts") auto
    from that have n: "sortWithoutIndex env (ctxNoIndex sc) ts = Inr (failed ErrObjectType)"
      by (simp add: sortWithoutIndex_def sortWithoutIndex_run_def failed_def IsScalar_def)
    from that d have i: "sortWithIndex env (ctxIndex sc) ts = Inr (failed ErrNotIndexed)"
      by (simp add: sortWithIndex_def sortWithIndex_run_def)
    from n i that have "raceResults env sc ts =
        Inr (failed (if firstResult sc = Indexed then ErrObjectType else ErrNotIndexed))"
      by (cases "firstResult sc") (simp_all add: raceResults_def failed_def)
    with that show ?thesis by (simp add: processSort_def failed_def)
  qed
  from p1 p2 p3 p4 show ?thesis by (simp add: isInvalidRequest_def)
qed

theorem processSort_invalid_requests_witness:
  "processSort demo_env (demo_sched Indexed) (demo_ts [''friend''] 1 0 [[1]])
     = Inr (Some emptySortResult, Some ErrObjectType)
   \<and> processSort demo_env (demo_sched NonIndexed) (demo_ts [''nope''] 1 0 [[1]])
     = Inr (Some emptySortResult, Some ErrNotDefined)
   \<and> processSort demo_env (demo_sched Indexed) (demo_ts [''tags''] 1 0 [[1]])
     = Inr (None, Some ErrListType)
   \<and> processSort demo_env (demo_sched Indexed) (demo_ts [''age''] (- 1) 0 [[1]])
     = Inr (None, Some ErrNegativeCount)"
proof -
  note t = processSort_invalid_requests
  have "processSort demo_env (demo_sched Indexed) (demo_ts [''friend''] 1 0 [[1]])
     = Inr (Some emptySortResult, Some ErrObjectType)"
    using t [of "demo_ts [''friend''] 1 0 [[1]]" demo_env "demo_sched Indexed" "''friend''" "[]"]
    by (simp add: demo_ts_def demo_env_def demo_sched_def)
  moreover have "processSort demo_env (demo_sched NonIndexed) (demo_ts [''nope''] 1 0 [[1]])
     = Inr (Some emptySortResult, Some ErrNotDefined)"
    using t [of "demo_ts [''nope''] 1 0 [[1]]" demo_env "demo_sched NonIndexed" "''nope''" "[]"]
    by (simp add: demo_ts_def demo_env_def demo_sched_def)
  moreover have "processSort demo_env (demo_sched Indexed) (demo_ts [''tags''] 1 0 [[1]])
     = Inr (None, Some ErrListType)"
    using t [of "demo_ts [''tags''] 1 0 [[1]]" demo_env "demo_sched Indexed" "''tags''" "[]"]
    by (simp add: demo_ts_def demo_env_def demo_sched_def)
  moreover have "processSort demo_env (demo_sched Indexed) (demo_ts [''age''] (- 1) 0 [[1]])
     = Inr (None, Some ErrNegativeCount)"
    using t [of "demo_ts [''age''] (- 1) 0 [[1]]" demo_env "demo_sched Indexed" "''age''" "[]"]
    by (simp add: demo_ts_def)
  ultimately show ?thesis by blast
qed

text \<open>
  C8 as stated fails: the object attribute \<open>friend\<close>, the result of the non-indexed scanner
  first on the channel, and the error returned is the not-indexed error.
\<close>

theorem processSort_object_type_counterexample:
  "schema_TypeOf demo_env ''friend'' = Inr UidID
   \<and> processSort demo_env (demo_sched NonIndexed) (demo_ts [''friend''] 1 0 [[1]])
       = Inr (Some emptySortResult, Some ErrNotIndexed)
   \<and> \<not> isInvalidRequest ErrNotIndexed"
  by code_simp

end
